theory Spec2Isabelle
  imports Complex_Main "HOL-Library.Multiset"
begin

section \<open>Data model\<close>

text \<open>
  The routing core of \<^verbatim>\<open>src/main.py\<close> is the function \<^verbatim>\<open>solve_vrp\<close> (lines 119 to 182).
  A location is a pair (latitude, longitude) of Python floats. Floats are idealised as
  real numbers throughout: rounding of the floating-point operations themselves is not
  modelled. The entries of the numpy matrix (\<^verbatim>\<open>dtype=int\<close>) and the solver's costs are
  modelled as unbounded integers; for geographic coordinates they stay far below the
  64-bit range.
\<close>

type_synonym location = "real \<times> real"

text \<open>
  The keys of \<^verbatim>\<open>st.session_state\<close> that \<^verbatim>\<open>solve_vrp\<close> writes (initialised at lines 19 to 24:
  the distance and the time to \<^verbatim>\<open>None\<close>, the route list to the empty list).
\<close>

record session_state =
  route_data :: "location list list"
  route_distance :: "real option"
  route_time :: "real option"

text \<open>
  What \<^verbatim>\<open>solve_vrp\<close> shows to the user: the only message is the \<^verbatim>\<open>st.warning\<close> of line 121,
  which asks the user to select shelters.
\<close>

datatype ui_message = warning_select_shelters

section \<open>Distance matrix (lines 127 to 132)\<close>

text \<open>\<^verbatim>\<open>Point(a).distance(Point(b))\<close>: the planar Euclidean distance of two points.\<close>

definition point_distance :: "location \<Rightarrow> location \<Rightarrow> real" where
  "point_distance a b = sqrt ((fst a - fst b)\<^sup>2 + (snd a - snd b)\<^sup>2)"

text \<open>Python's \<^verbatim>\<open>int(x)\<close> on a float: truncation toward zero.\<close>

definition py_int :: "real \<Rightarrow> int" where
  "py_int x = (if 0 \<le> x then \<lfloor>x\<rfloor> else \<lceil>x\<rceil>)"

text \<open>
  \<^verbatim>\<open>np.zeros((n, n), dtype=int)\<close> followed by the two nested loops, which write the
  entry \<open>(i, j)\<close> only where \<open>i \<noteq> j\<close>.
\<close>

definition distance_matrix :: "location list \<Rightarrow> int list list" where
  "distance_matrix locations =
     (let num_locations = length locations in
      map (\<lambda>i. map (\<lambda>j. if i \<noteq> j
                          then py_int (point_distance (locations ! i) (locations ! j) * 100000)
                          else 0)
                   [0..<num_locations])
          [0..<num_locations])"

section \<open>The routing library as \<^verbatim>\<open>solve_vrp\<close> uses it\<close>

text \<open>
  \<^verbatim>\<open>pywrapcp.RoutingIndexManager(num_locations, num_vehicles, depot)\<close> numbers the
  variables of the routing model. With one depot shared by all vehicles, every node
  \<open>i\<close> has the index \<open>i\<close>; the start of vehicle 0 is the depot's own index; the
  starts of the vehicles \<open>1, 2, \<dots>\<close> follow the nodes; the ends of all vehicles come
  last. Start and end indices map back to the depot node.
\<close>

record routing_manager =
  num_nodes :: nat
  num_vehicles :: nat
  depot :: nat

definition RoutingIndexManager :: "nat \<Rightarrow> nat \<Rightarrow> nat \<Rightarrow> routing_manager" where
  "RoutingIndexManager n v d = \<lparr>num_nodes = n, num_vehicles = v, depot = d\<rparr>"

definition IndexToNode :: "routing_manager \<Rightarrow> nat \<Rightarrow> nat" where
  "IndexToNode m i = (if i < num_nodes m then i else depot m)"

text \<open>\<^verbatim>\<open>routing.Size()\<close>: the number of indices that have a successor (nodes and starts).\<close>

definition routing_Size :: "routing_manager \<Rightarrow> nat" where
  "routing_Size m = num_nodes m + num_vehicles m - 1"

definition routing_Start :: "routing_manager \<Rightarrow> nat \<Rightarrow> nat" where
  "routing_Start m v = (if v = 0 then depot m else num_nodes m + v - 1)"

definition routing_End :: "routing_manager \<Rightarrow> nat \<Rightarrow> nat" where
  "routing_End m v = routing_Size m + v"

definition routing_IsEnd :: "routing_manager \<Rightarrow> nat \<Rightarrow> bool" where
  "routing_IsEnd m i = (routing_Size m \<le> i)"

text \<open>
  The assignment that \<^verbatim>\<open>routing.SolveWithParameters\<close> returns: \<open>Value sol i\<close> is
  \<^verbatim>\<open>solution.Value(routing.NextVar(i))\<close>, the index visited after \<open>i\<close>, and
  \<open>ObjectiveValue sol\<close> is \<^verbatim>\<open>solution.ObjectiveValue()\<close>.
\<close>

record assignment =
  ObjectiveValue :: int
  Value :: "nat \<Rightarrow> nat"

text \<open>
  The search itself (first solution by cheapest arc, guided local search, 30 seconds) is
  the library's and is a parameter of the model: a solver takes the cost matrix behind
  the transit callback and the number of vehicles, and returns an assignment or nothing
  (Python's \<^verbatim>\<open>None\<close>).
\<close>

type_synonym solver = "int list list \<Rightarrow> nat \<Rightarrow> assignment option"

section \<open>Route extraction and metrics (lines 157 to 182)\<close>

text \<open>
  The inner \<^verbatim>\<open>while not routing.IsEnd(index)\<close> loop. It follows the successors of the
  assignment and need not end for an arbitrary one, so its result is optional:
  \<open>None\<close> is a loop that never returns.
\<close>

partial_function (option) while_not_end ::
  "routing_manager \<Rightarrow> location list \<Rightarrow> assignment \<Rightarrow> nat \<Rightarrow> location list
     \<Rightarrow> location list option" where
  "while_not_end manager locations solution index route =
     (if routing_IsEnd manager index then Some route
      else while_not_end manager locations solution (Value solution index)
             (route @ [locations ! IndexToNode manager index]))"

text \<open>
  The outer \<^verbatim>\<open>for vehicle_id in range(num_vehicles)\<close> loop over the pair
  (\<^verbatim>\<open>st.session_state["route_data"]\<close>, \<^verbatim>\<open>total_stop_time\<close>).
\<close>

fun vehicle_loop ::
  "routing_manager \<Rightarrow> location list \<Rightarrow> location \<Rightarrow> assignment \<Rightarrow> nat list
     \<Rightarrow> location list list \<times> int \<Rightarrow> (location list list \<times> int) option" where
  "vehicle_loop manager locations start_point solution [] acc = Some acc"
| "vehicle_loop manager locations start_point solution (vehicle_id # rest) (data, total_stop_time) =
     (case while_not_end manager locations solution (routing_Start manager vehicle_id) [] of
        None \<Rightarrow> None
      | Some walked \<Rightarrow>
          (let route = walked @ [start_point];
               num_stops = int (length route) - 2
           in vehicle_loop manager locations start_point solution rest
                (data @ [route], total_stop_time + num_stops * 60)))"

text \<open>
  Python's \<^verbatim>\<open>round(x, 2)\<close>, on reals: the nearest multiple of 1/100, a tie going to the
  even one.
\<close>

definition round_half_even :: "real \<Rightarrow> int" where
  "round_half_even x =
     (let f = \<lfloor>x\<rfloor>; d = x - of_int f
      in if d < 1 / 2 then f else if 1 / 2 < d then f + 1 else if even f then f else f + 1)"

definition py_round2 :: "real \<Rightarrow> real" where
  "py_round2 x = of_int (round_half_even (x * 100)) / 100"

text \<open>
  \<^verbatim>\<open>solve_vrp(start_point, shelters, num_vehicles)\<close>. The rows of the data frame
  \<^verbatim>\<open>shelters\<close> are the (latitude, longitude) pairs of the selected shelters. The function
  always returns Python's \<^verbatim>\<open>None\<close>; what it does is in the messages it shows and in the
  session state it leaves, which are the result here.
\<close>

definition solve_vrp ::
  "solver \<Rightarrow> location \<Rightarrow> location list \<Rightarrow> nat \<Rightarrow> session_state
     \<Rightarrow> (ui_message list \<times> session_state) option" where
  "solve_vrp solve_with_parameters start_point shelters n_vehicles st =
     (if shelters = [] then Some ([warning_select_shelters], st)
      else
        let locations = start_point # shelters;
            num_locations = length locations;
            matrix = distance_matrix locations;
            manager = RoutingIndexManager num_locations n_vehicles 0
        in case solve_with_parameters matrix n_vehicles of
             None \<Rightarrow> Some ([], st)
           | Some solution \<Rightarrow>
               (let total_distance = real_of_int (ObjectiveValue solution) / 1000
                in case vehicle_loop manager locations start_point solution [0..<n_vehicles] ([], 0) of
                     None \<Rightarrow> None
                   | Some (data, total_stop_time) \<Rightarrow>
                       (let travel_time = py_round2 (total_distance / 0.667)
                        in Some ([], st\<lparr>route_data := data,
                                        route_distance := Some total_distance,
                                        route_time := Some (travel_time + real_of_int total_stop_time)\<rparr>))))"

section \<open>What the library promises about an assignment\<close>

text \<open>
  The routing model of \<^verbatim>\<open>solve_vrp\<close> has no disjunction and no dimension, so every node
  is mandatory. The constraints the library puts on the successor variables of a
  solution are: the successors of the indices below \<^verbatim>\<open>routing.Size()\<close> are pairwise
  different, each is an index of the model and none is the start of a vehicle, and no
  index lies on a cycle: following the successors from any index reaches the end of a
  vehicle. \<open>reaches_end m sol k i\<close> says that at most \<open>k\<close> steps from \<open>i\<close> reach an end.
\<close>

fun reaches_end :: "routing_manager \<Rightarrow> assignment \<Rightarrow> nat \<Rightarrow> nat \<Rightarrow> bool" where
  "reaches_end m sol 0 i = routing_IsEnd m i"
| "reaches_end m sol (Suc k) i = (routing_IsEnd m i \<or> reaches_end m sol k (Value sol i))"

definition start_indices :: "routing_manager \<Rightarrow> nat list" where
  "start_indices m = map (routing_Start m) [0..<num_vehicles m]"

definition valid_assignment :: "routing_manager \<Rightarrow> assignment \<Rightarrow> bool" where
  "valid_assignment m sol =
     (distinct (map (Value sol) [0..<routing_Size m])
      \<and> list_all (\<lambda>i. Value sol i < routing_Size m + num_vehicles m
                      \<and> Value sol i \<notin> set (start_indices m)
                      \<and> reaches_end m sol (routing_Size m) i)
                 [0..<routing_Size m])"

text \<open>
  The indices a vehicle visits before its end, from the index \<open>i\<close> on, read off the
  assignment with a bound \<open>k\<close> on their number. The bound \<^verbatim>\<open>routing.Size()\<close> is enough
  for a valid assignment.
\<close>

fun index_path :: "routing_manager \<Rightarrow> assignment \<Rightarrow> nat \<Rightarrow> nat \<Rightarrow> nat list" where
  "index_path m sol 0 i = []"
| "index_path m sol (Suc k) i =
     (if routing_IsEnd m i then [] else i # index_path m sol k (Value sol i))"

definition vehicle_path :: "routing_manager \<Rightarrow> assignment \<Rightarrow> nat \<Rightarrow> nat list" where
  "vehicle_path m sol v = index_path m sol (routing_Size m) (routing_Start m v)"

text \<open>The indices visited from \<open>i\<close> on, with the bound \<^verbatim>\<open>routing.Size()\<close>.\<close>

definition full_path :: "routing_manager \<Rightarrow> assignment \<Rightarrow> nat \<Rightarrow> nat list" where
  "full_path m sol i = index_path m sol (routing_Size m) i"

text \<open>
  The route of a vehicle in node space: the nodes of the indices it visits, then the
  depot again. The destinations of a route are what lies between its first and its last
  entry.
\<close>

definition node_route :: "routing_manager \<Rightarrow> assignment \<Rightarrow> nat \<Rightarrow> nat list" where
  "node_route m sol v = map (IndexToNode m) (vehicle_path m sol v) @ [depot m]"

definition interior :: "'a list \<Rightarrow> 'a list" where
  "interior r = butlast (tl r)"

text \<open>
  The transit callback of lines 138 to 141, and the cost the library gives an assignment:
  for every vehicle whose route is not empty, the fixed cost that
  \<^verbatim>\<open>SetFixedCostOfAllVehicles(1000)\<close> sets plus the transit of every arc of the route; an
  unused vehicle costs nothing.
\<close>

definition distance_callback :: "int list list \<Rightarrow> routing_manager \<Rightarrow> nat \<Rightarrow> nat \<Rightarrow> int" where
  "distance_callback matrix manager from_index to_index =
     (let from_node = IndexToNode manager from_index;
          to_node = IndexToNode manager to_index
      in matrix ! from_node ! to_node)"

definition route_transit :: "int list list \<Rightarrow> routing_manager \<Rightarrow> assignment \<Rightarrow> nat \<Rightarrow> int" where
  "route_transit matrix m sol v =
     (\<Sum>i\<leftarrow>vehicle_path m sol v. distance_callback matrix m i (Value sol i))"

definition total_transit :: "int list list \<Rightarrow> routing_manager \<Rightarrow> assignment \<Rightarrow> int" where
  "total_transit matrix m sol = (\<Sum>v\<leftarrow>[0..<num_vehicles m]. route_transit matrix m sol v)"

definition vehicle_used :: "routing_manager \<Rightarrow> assignment \<Rightarrow> nat \<Rightarrow> bool" where
  "vehicle_used m sol v = (\<not> routing_IsEnd m (Value sol (routing_Start m v)))"

definition routing_objective :: "int list list \<Rightarrow> routing_manager \<Rightarrow> assignment \<Rightarrow> int" where
  "routing_objective matrix m sol =
     (\<Sum>v\<leftarrow>[0..<num_vehicles m].
        if vehicle_used m sol v then 1000 + route_transit matrix m sol v else 0)"

text \<open>The route of a vehicle in coordinates, as the loop leaves it.\<close>

definition route_of :: "routing_manager \<Rightarrow> location list \<Rightarrow> assignment \<Rightarrow> nat \<Rightarrow> location list" where
  "route_of m locs sol v = map (\<lambda>k. locs ! k) (node_route m sol v)"

text \<open>
  The geometric length of a route in coordinates: the sum of the distances of
  consecutive points.
\<close>

fun path_length :: "location list \<Rightarrow> real" where
  "path_length (a # b # rest) = point_distance a b + path_length (b # rest)"
| "path_length rest = 0"

section \<open>Concrete inputs\<close>

text \<open>
  The session state as lines 19 to 24 initialise it, and a state left by an earlier
  successful run.
\<close>

definition initial_state :: session_state where
  "initial_state = \<lparr>route_data = [], route_distance = None, route_time = None\<rparr>"

definition solved_before :: session_state where
  "solved_before = \<lparr>route_data = [[(0, 0), (0, 1), (0, 0)]], route_distance = Some 201,
                      route_time = Some 361.35\<rparr>"

text \<open>
  One shelter and one vehicle: the indices are 0 (the depot, start of the vehicle),
  1 (the shelter) and 2 (the end of the vehicle). The only route is 0, 1, 2.
\<close>

definition one_stop :: assignment where
  "one_stop = \<lparr>ObjectiveValue = 201000, Value = (\<lambda>i. if i = 0 then 1 else 2)\<rparr>"

text \<open>
  Three shelters at (0, 1), (1, 1), (1, 0) and five vehicles: the indices 1 to 3 are the
  shelters, 0 and 4 to 7 the starts of the vehicles, 8 to 12 their ends. In \<open>one_tour\<close>
  vehicle 0 visits all three shelters and the other vehicles go from start to end; in
  \<open>one_each\<close> the vehicles 0, 1 and 2 visit one shelter each.
\<close>

definition one_tour :: assignment where
  "one_tour = \<lparr>ObjectiveValue = 401000, Value = (\<lambda>i. if i < 3 then i + 1 else i + 5)\<rparr>"

definition one_each :: assignment where
  "one_each = \<lparr>ObjectiveValue = 685842,
      Value = (\<lambda>i. if i = 0 then 1 else if i = 4 then 2 else if i = 5 then 3
                   else if i < 4 then i + 7 else i + 5)\<rparr>"

section \<open>The cost matrix\<close>

lemma point_distance_sym: "point_distance a b = point_distance b a"
  by (simp add: point_distance_def power2_commute)

lemma py_int_nonneg: "0 \<le> x \<Longrightarrow> 0 \<le> py_int x"
  by (simp add: py_int_def)

lemma distance_matrix_entry:
  "i < length locations \<Longrightarrow> j < length locations \<Longrightarrow>
   distance_matrix locations ! i ! j =
     (if i \<noteq> j then py_int (point_distance (locations ! i) (locations ! j) * 100000) else 0)"
  by (simp add: distance_matrix_def Let_def)

lemma distance_matrix_shape:
  "length (distance_matrix locations) = length locations \<and>
   (\<forall>row \<in> set (distance_matrix locations). length row = length locations)"
  by (auto simp: distance_matrix_def Let_def)

text \<open>
  C8. For every list of locations, the cost matrix is square of the list's size, its
  diagonal is zero, it is symmetric, and every entry is a non-negative integer.
\<close>

theorem distance_matrix_zero_diag_symmetric:
  assumes "i < length locations" and "j < length locations"
  shows "length (distance_matrix locations) = length locations
       \<and> length (distance_matrix locations ! i) = length locations
       \<and> distance_matrix locations ! i ! i = 0
       \<and> distance_matrix locations ! i ! j = distance_matrix locations ! j ! i
       \<and> 0 \<le> distance_matrix locations ! i ! j"
proof -
  have len: "length (distance_matrix locations ! i) = length locations"
    using assms(1) by (simp add: distance_matrix_def Let_def)
  have sym: "distance_matrix locations ! i ! j = distance_matrix locations ! j ! i"
    using assms by (simp add: distance_matrix_entry point_distance_sym)
  have "0 \<le> point_distance (locations ! i) (locations ! j) * 100000"
    by (simp add: point_distance_def)
  then have nonneg: "0 \<le> distance_matrix locations ! i ! j"
    using assms by (simp add: distance_matrix_entry py_int_nonneg)
  show ?thesis
    using assms len sym nonneg by (simp add: distance_matrix_entry distance_matrix_shape)
qed

theorem distance_matrix_zero_diag_symmetric_witness:
  "distance_matrix [(0, 0), (0, 1)] ! 0 ! 0 = 0
   \<and> distance_matrix [(0, 0), (0, 1)] ! 0 ! 1 = distance_matrix [(0, 0), (0, 1)] ! 1 ! 0
   \<and> 0 \<le> distance_matrix [(0, 0), (0, 1)] ! 0 ! 1"
  using distance_matrix_zero_diag_symmetric [of 0 "[(0, 0), (0, 1)]" 1] by simp

section \<open>The loops in closed form\<close>

lemma while_not_end_path:
  "reaches_end m sol k i \<Longrightarrow>
   while_not_end m locs sol i acc
     = Some (acc @ map (\<lambda>j. locs ! IndexToNode m j) (index_path m sol k i))"
proof (induction k arbitrary: i acc)
  case 0
  then show ?case by (subst while_not_end.simps) simp
next
  case (Suc k)
  show ?case
  proof (cases "routing_IsEnd m i")
    case True
    then show ?thesis by (subst while_not_end.simps) simp
  next
    case False
    with Suc.prems have "reaches_end m sol k (Value sol i)" by simp
    from Suc.IH [OF this] False show ?thesis
      by (subst while_not_end.simps) simp
  qed
qed

lemma vehicle_loop_closed:
  assumes "\<forall>v \<in> set vs. reaches_end m sol (routing_Size m) (routing_Start m v)"
    and "locs ! depot m = start_point"
  shows "vehicle_loop m locs start_point sol vs (data, t)
     = Some (data @ map (route_of m locs sol) vs,
             t + (\<Sum>v\<leftarrow>vs. (int (length (route_of m locs sol v)) - 2) * 60))"
  using assms(1)
proof (induction vs arbitrary: data t)
  case Nil
  then show ?case by simp
next
  case (Cons v vs)
  from Cons.prems have r: "reaches_end m sol (routing_Size m) (routing_Start m v)" by simp
  from Cons.prems have rest: "\<forall>v \<in> set vs. reaches_end m sol (routing_Size m) (routing_Start m v)" by simp
  show ?case
    by (simp add: while_not_end_path [OF r] Cons.IH [OF rest] route_of_def node_route_def
        vehicle_path_def assms(2) Let_def)
qed

lemma manager_fields [simp]:
  "num_nodes (RoutingIndexManager n v d) = n"
  "num_vehicles (RoutingIndexManager n v d) = v"
  "depot (RoutingIndexManager n v d) = d"
  by (simp_all add: RoutingIndexManager_def)

lemma start_below_size:
  "v < num_vehicles m \<Longrightarrow> depot m < num_nodes m \<Longrightarrow> routing_Start m v < routing_Size m"
  by (auto simp: routing_Start_def routing_Size_def)

lemma valid_reaches_end:
  "valid_assignment m sol \<Longrightarrow> i < routing_Size m \<Longrightarrow> reaches_end m sol (routing_Size m) i"
  by (simp add: valid_assignment_def list_all_iff)

lemma valid_start_reaches_end:
  "valid_assignment m sol \<Longrightarrow> depot m < num_nodes m \<Longrightarrow> v < num_vehicles m \<Longrightarrow>
   reaches_end m sol (routing_Size m) (routing_Start m v)"
  by (simp add: valid_reaches_end start_below_size)

lemma solve_vrp_success:
  assumes ne: "shelters \<noteq> []"
    and sol: "solve_with_parameters (distance_matrix (start_point # shelters)) n_vehicles = Some sol"
    and valid: "valid_assignment (RoutingIndexManager (Suc (length shelters)) n_vehicles 0) sol"
  shows "solve_vrp solve_with_parameters start_point shelters n_vehicles st =
     Some ([], st\<lparr>route_data :=
                     map (route_of (RoutingIndexManager (Suc (length shelters)) n_vehicles 0)
                            (start_point # shelters) sol) [0..<n_vehicles],
                  route_distance := Some (real_of_int (ObjectiveValue sol) / 1000),
                  route_time := Some (py_round2 (real_of_int (ObjectiveValue sol) / 1000 / 0.667)
                     + real_of_int (\<Sum>v\<leftarrow>[0..<n_vehicles].
                         (int (length (route_of (RoutingIndexManager (Suc (length shelters)) n_vehicles 0)
                            (start_point # shelters) sol v)) - 2) * 60))\<rparr>)"
proof -
  let ?m = "RoutingIndexManager (Suc (length shelters)) n_vehicles 0"
  have reach: "\<forall>v \<in> set [0..<n_vehicles]. reaches_end ?m sol (routing_Size ?m) (routing_Start ?m v)"
    using valid by (simp add: valid_start_reaches_end)
  have depot: "(start_point # shelters) ! depot ?m = start_point" by simp
  show ?thesis
    using ne sol
    by (simp add: solve_vrp_def Let_def vehicle_loop_closed [OF reach depot])
qed

section \<open>Routes begin and end at the depot\<close>

lemma index_path_end: "routing_IsEnd m i \<Longrightarrow> index_path m sol k i = []"
  by (cases k) simp_all

lemma index_path_step:
  "\<not> routing_IsEnd m i \<Longrightarrow> index_path m sol (Suc k) i = i # index_path m sol k (Value sol i)"
  by simp

lemma vehicle_path_Cons:
  assumes "v < num_vehicles m" and "depot m < num_nodes m"
  shows "\<exists>rest. vehicle_path m sol v = routing_Start m v # rest"
proof -
  from assms have lt: "routing_Start m v < routing_Size m" by (rule start_below_size)
  then obtain k where k: "routing_Size m = Suc k" by (cases "routing_Size m") simp_all
  from lt have "\<not> routing_IsEnd m (routing_Start m v)" by (simp add: routing_IsEnd_def)
  then show ?thesis by (simp add: vehicle_path_def k)
qed

lemma vehicle_path_unused:
  assumes "v < num_vehicles m" and "depot m < num_nodes m" and "\<not> vehicle_used m sol v"
  shows "vehicle_path m sol v = [routing_Start m v]"
proof -
  from assms(1,2) have lt: "routing_Start m v < routing_Size m" by (rule start_below_size)
  then obtain k where k: "routing_Size m = Suc k" by (cases "routing_Size m") simp_all
  from lt have "\<not> routing_IsEnd m (routing_Start m v)" by (simp add: routing_IsEnd_def)
  with assms(3) show ?thesis by (simp add: vehicle_path_def k vehicle_used_def index_path_end)
qed

lemma IndexToNode_Start:
  "depot m < num_nodes m \<Longrightarrow> IndexToNode m (routing_Start m v) = depot m"
  by (auto simp: IndexToNode_def routing_Start_def)

lemma route_of_shape:
  assumes "v < num_vehicles m" and "depot m < num_nodes m"
  shows "2 \<le> length (route_of m locs sol v) \<and> hd (route_of m locs sol v) = locs ! depot m
       \<and> last (route_of m locs sol v) = locs ! depot m"
proof -
  from vehicle_path_Cons [OF assms] obtain rest
    where "vehicle_path m sol v = routing_Start m v # rest" by blast
  then show ?thesis
    by (simp add: route_of_def node_route_def IndexToNode_Start [OF assms(2)])
qed

lemma route_of_unused:
  assumes "v < num_vehicles m" and "depot m < num_nodes m" and "\<not> vehicle_used m sol v"
  shows "route_of m locs sol v = [locs ! depot m, locs ! depot m]"
  by (simp add: route_of_def node_route_def vehicle_path_unused [OF assms]
      IndexToNode_Start [OF assms(2)])

text \<open>
  C3. A solve that gets a valid assignment from the solver returns, with one route per
  vehicle; every route has at least two entries, begins with the depot coordinate and
  ends with it; and the route of a vehicle that is not used is exactly the depot twice.
\<close>

theorem routes_begin_and_end_at_depot:
  assumes "shelters \<noteq> []"
    and "solve_with_parameters (distance_matrix (start_point # shelters)) n_vehicles = Some sol"
    and "valid_assignment (RoutingIndexManager (Suc (length shelters)) n_vehicles 0) sol"
  shows "\<exists>st'. solve_vrp solve_with_parameters start_point shelters n_vehicles st = Some ([], st')
       \<and> length (route_data st') = n_vehicles
       \<and> (\<forall>r \<in> set (route_data st').
             2 \<le> length r \<and> hd r = start_point \<and> last r = start_point)
       \<and> (\<forall>v < n_vehicles.
             \<not> vehicle_used (RoutingIndexManager (Suc (length shelters)) n_vehicles 0) sol v
             \<longrightarrow> route_data st' ! v = [start_point, start_point])"
proof -
  let ?m = "RoutingIndexManager (Suc (length shelters)) n_vehicles 0"
  let ?locs = "start_point # shelters"
  have d: "depot ?m < num_nodes ?m" by simp
  have shape: "2 \<le> length (route_of ?m ?locs sol v) \<and> hd (route_of ?m ?locs sol v) = start_point
       \<and> last (route_of ?m ?locs sol v) = start_point" if "v < n_vehicles" for v
    using route_of_shape [of v ?m ?locs sol] that by simp
  have unused: "route_of ?m ?locs sol v = [start_point, start_point]"
    if "v < n_vehicles" and "\<not> vehicle_used ?m sol v" for v
    using route_of_unused [of v ?m sol ?locs] that by simp
  show ?thesis
    using shape unused
    by (simp add: solve_vrp_success [where solve_with_parameters = solve_with_parameters, OF assms])
qed

lemma one_stop_valid: "valid_assignment (RoutingIndexManager (Suc (length [(0::real, 1::real)])) 1 0) one_stop"
  by code_simp

theorem routes_begin_and_end_at_depot_witness:
  "\<exists>st'. solve_vrp (\<lambda>matrix v. Some one_stop) (0, 0) [(0, 1)] 1 initial_state = Some ([], st')
       \<and> length (route_data st') = 1
       \<and> list_all (\<lambda>r. 2 \<le> length r \<and> hd r = (0, 0) \<and> last r = (0, 0)) (route_data st')"
proof -
  have ne: "[(0::real, 1::real)] \<noteq> []" by simp
  have sol: "(\<lambda>matrix v. Some one_stop) (distance_matrix ((0, 0) # [(0, 1)])) (1::nat) = Some one_stop"
    by simp
  show ?thesis
    using routes_begin_and_end_at_depot
      [where solve_with_parameters = "\<lambda>matrix v. Some one_stop" and st = initial_state
         and start_point = "(0, 0)", OF ne sol one_stop_valid]
    by (auto simp: list_all_iff)
qed

section \<open>Failing fast on an empty selection\<close>

text \<open>
  C4. When no shelter is selected, \<^verbatim>\<open>solve_vrp\<close> shows the warning and returns with the
  session state as it was: no routes, distance or time are produced. The result is the
  same for every solver, so the solver is not consulted. No call with a shelter selected
  shows any message, so the warning tells the empty selection apart from every other
  outcome.
\<close>

theorem solve_vrp_empty_warns:
  "solve_vrp solve_with_parameters start_point [] n_vehicles st
     = Some ([warning_select_shelters], st)
   \<and> (\<forall>shelters messages st'. shelters \<noteq> [] \<longrightarrow>
         solve_vrp solve_with_parameters start_point shelters n_vehicles st = Some (messages, st')
         \<longrightarrow> messages = [])"
  by (auto simp: solve_vrp_def Let_def split: option.splits prod.splits)

theorem solve_vrp_empty_warns_witness:
  "solve_vrp (\<lambda>matrix v. Some one_stop) (0, 0) [] 1 initial_state
     = Some ([warning_select_shelters], initial_state)
   \<and> [(0::real, 1::real)] \<noteq> []
   \<and> (\<exists>st'. solve_vrp (\<lambda>matrix v. Some one_stop) (0, 0) [(0, 1)] 1 initial_state
          = Some ([], st'))"
proof -
  have ne: "[(0::real, 1::real)] \<noteq> []" by simp
  have sol: "(\<lambda>matrix v. Some one_stop) (distance_matrix ((0, 0) # [(0, 1)])) (1::nat) = Some one_stop"
    by simp
  have run: "\<exists>st'. solve_vrp (\<lambda>matrix v. Some one_stop) (0, 0) [(0, 1)] 1 initial_state
      = Some ([], st')"
    using solve_vrp_success [where solve_with_parameters = "\<lambda>matrix v. Some one_stop"
        and st = initial_state and start_point = "(0, 0)", OF ne sol one_stop_valid]
    by blast
  from solve_vrp_empty_warns [of "\<lambda>matrix v. Some one_stop" "(0, 0)" 1 initial_state] run
  show ?thesis by simp
qed

section \<open>A solve that finds no solution\<close>

text \<open>
  C10. When no shelter is selected or the solver returns no solution, \<^verbatim>\<open>solve_vrp\<close>
  returns and the stored route list, distance and time are what they were before the
  call.
\<close>

theorem failed_solve_keeps_outputs:
  assumes "shelters = []
         \<or> solve_with_parameters (distance_matrix (start_point # shelters)) n_vehicles = None"
  shows "\<exists>messages st'.
           solve_vrp solve_with_parameters start_point shelters n_vehicles st = Some (messages, st')
         \<and> route_data st' = route_data st
         \<and> route_distance st' = route_distance st
         \<and> route_time st' = route_time st"
  using assms by (auto simp: solve_vrp_def Let_def)

theorem failed_solve_keeps_outputs_witness:
  "(\<exists>messages st'.
       solve_vrp (\<lambda>matrix v. None) (0, 0) [(0, 1)] 1 solved_before = Some (messages, st')
     \<and> route_data st' = [[(0, 0), (0, 1), (0, 0)]]
     \<and> route_distance st' = Some 201
     \<and> route_time st' = Some 361.35)
   \<and> (\<exists>messages st'.
       solve_vrp (\<lambda>matrix v. None) (0, 0) [] 1 solved_before = Some (messages, st')
     \<and> route_data st' = [[(0, 0), (0, 1), (0, 0)]]
     \<and> route_distance st' = Some 201
     \<and> route_time st' = Some 361.35)"
proof -
  have none: "[(0::real, 1::real)] = []
     \<or> (\<lambda>matrix v. None) (distance_matrix ((0, 0) # [(0, 1)])) (1::nat) = (None :: assignment option)"
    by simp
  have empty: "([] :: location list) = []
     \<or> (\<lambda>matrix v. None) (distance_matrix ((0, 0) # [])) (1::nat) = (None :: assignment option)"
    by simp
  show ?thesis
    using failed_solve_keeps_outputs
        [where solve_with_parameters = "\<lambda>matrix v. None" and st = solved_before
           and start_point = "(0, 0)", OF none]
      failed_solve_keeps_outputs
        [where solve_with_parameters = "\<lambda>matrix v. None" and st = solved_before
           and start_point = "(0, 0)", OF empty]
    by (simp add: solved_before_def)
qed

text \<open>
  C7, as the code has it. When shelters are selected and the solver returns no solution,
  \<^verbatim>\<open>solve_vrp\<close> returns normally: it shows no message, raises nothing and leaves the
  session state as it was. The only difference from the empty selection is that the
  latter shows the warning.
\<close>

theorem no_solution_is_silent:
  assumes "shelters \<noteq> []"
    and "solve_with_parameters (distance_matrix (start_point # shelters)) n_vehicles = None"
  shows "solve_vrp solve_with_parameters start_point shelters n_vehicles st = Some ([], st)
       \<and> solve_vrp solve_with_parameters start_point [] n_vehicles st
           = Some ([warning_select_shelters], st)"
  using assms by (simp add: solve_vrp_def Let_def)

theorem no_solution_is_silent_witness:
  "solve_vrp (\<lambda>matrix v. None) (0, 0) [(0, 1)] 1 solved_before = Some ([], solved_before)
   \<and> solve_vrp (\<lambda>matrix v. None) (0, 0) [] 1 solved_before
       = Some ([warning_select_shelters], solved_before)"
proof -
  have ne: "[(0::real, 1::real)] \<noteq> []" by simp
  have none: "(\<lambda>matrix v. None) (distance_matrix ((0, 0) # [(0, 1)])) (1::nat)
      = (None :: assignment option)"
    by simp
  show ?thesis
    using no_solution_is_silent
        [where solve_with_parameters = "\<lambda>matrix v. None" and st = solved_before
           and start_point = "(0, 0)", OF ne none]
    by simp
qed

text \<open>
  C7 as the specification states it asks for an error reported to the caller. With one
  shelter and a solver that finds nothing, the run shows no message at all and returns
  the state unchanged.
\<close>

theorem no_solution_reports_nothing_counterexample:
  "solve_vrp (\<lambda>matrix v. None) (0, 0) [(0, 1)] 1 initial_state = Some ([], initial_state)"
  by (simp add: solve_vrp_def)

section \<open>One shelter, one vehicle\<close>

lemma single_shelter_successors:
  assumes "valid_assignment (RoutingIndexManager 2 1 0) sol"
  shows "Value sol 0 = 1 \<and> Value sol 1 = 2"
proof -
  let ?m = "RoutingIndexManager 2 1 0"
  have size: "routing_Size ?m = 2" by (simp add: routing_Size_def)
  have upt: "[0..<2] = [0, Suc 0]" by (simp add: upt_rec)
  from assms have ne: "Value sol 0 \<noteq> Value sol 1"
    and b0: "Value sol 0 < 3" and s0: "Value sol 0 \<noteq> 0"
    and b1: "Value sol 1 < 3" and s1: "Value sol 1 \<noteq> 0"
    and r1: "reaches_end ?m sol 2 1"
    by (simp_all add: valid_assignment_def routing_Size_def upt start_indices_def routing_Start_def)
  have "Value sol 1 \<noteq> 1"
  proof
    assume "Value sol 1 = 1"
    with r1 show False
      by (simp add: numeral_2_eq_2 routing_IsEnd_def routing_Size_def)
  qed
  with b1 s1 have v1: "Value sol 1 = 2" by arith
  with ne b0 s0 have "Value sol 0 = 1" by arith
  with v1 show ?thesis by simp
qed

lemma single_shelter_path:
  assumes "valid_assignment (RoutingIndexManager 2 1 0) sol"
  shows "vehicle_path (RoutingIndexManager 2 1 0) sol 0 = [0, 1]"
  using single_shelter_successors [OF assms]
  by (simp add: vehicle_path_def routing_Size_def routing_Start_def routing_IsEnd_def
      numeral_2_eq_2)

text \<open>
  C9. Origin (0, 0), the single destination (0, 1) and one vehicle: whatever valid
  assignment the solver returns, the solve leaves exactly one route,
  [(0, 0), (0, 1), (0, 0)]; its stop count is 1 and the loop's service time is 60 minutes.
\<close>

theorem single_shelter_single_vehicle:
  assumes "solve_with_parameters (distance_matrix [(0, 0), (0, 1)]) 1 = Some sol"
    and "valid_assignment (RoutingIndexManager 2 1 0) sol"
  shows "\<exists>st'. solve_vrp solve_with_parameters (0, 0) [(0, 1)] 1 st = Some ([], st')
       \<and> route_data st' = [[(0, 0), (0, 1), (0, 0)]]
       \<and> (\<Sum>route\<leftarrow>route_data st'. int (length route) - 2) = 1
       \<and> vehicle_loop (RoutingIndexManager 2 1 0) [(0, 0), (0, 1)] (0, 0) sol [0..<1] ([], 0)
           = Some ([[(0, 0), (0, 1), (0, 0)]], 60)"
proof -
  let ?m = "RoutingIndexManager 2 1 0"
  let ?locs = "[(0, 0), (0, 1)] :: location list"
  have ne: "[(0::real, 1::real)] \<noteq> []" by simp
  have valid: "valid_assignment (RoutingIndexManager (Suc (length [(0::real, 1::real)])) 1 0) sol"
    using assms(2) by (simp add: numeral_2_eq_2)
  have route: "route_of ?m ?locs sol 0 = [(0, 0), (0, 1), (0, 0)]"
    using single_shelter_path [OF assms(2)]
    by (simp add: route_of_def node_route_def IndexToNode_def)
  have reach: "\<forall>v \<in> set [0..<1]. reaches_end ?m sol (routing_Size ?m) (routing_Start ?m v)"
    using assms(2) by (simp add: valid_start_reaches_end)
  have depot: "?locs ! depot ?m = (0, 0)" by simp
  have loop: "vehicle_loop ?m ?locs (0, 0) sol [0..<1] ([], 0) = Some ([[(0, 0), (0, 1), (0, 0)]], 60)"
    unfolding vehicle_loop_closed [OF reach depot] using route by simp
  let ?st' = "st\<lparr>route_data := [[(0, 0), (0, 1), (0, 0)]],
            route_distance := Some (real_of_int (ObjectiveValue sol) / 1000),
            route_time := Some (py_round2 (real_of_int (ObjectiveValue sol) / 1000 / 0.667) + 60)\<rparr>"
  have run: "solve_vrp solve_with_parameters (0, 0) [(0, 1)] 1 st = Some ([], ?st')"
    unfolding solve_vrp_success [where solve_with_parameters = solve_with_parameters,
          OF ne assms(1) valid]
    using route by (simp add: numeral_2_eq_2)
  have data: "route_data ?st' = [[(0, 0), (0, 1), (0, 0)]]" by simp
  have stops: "(\<Sum>route\<leftarrow>route_data ?st'. int (length route) - 2) = 1" by simp
  from run data stops loop show ?thesis by blast
qed

theorem single_shelter_single_vehicle_witness:
  "\<exists>st'. solve_vrp (\<lambda>matrix v. Some one_stop) (0, 0) [(0, 1)] 1 initial_state = Some ([], st')
       \<and> route_data st' = [[(0, 0), (0, 1), (0, 0)]]
       \<and> (\<Sum>route\<leftarrow>route_data st'. int (length route) - 2) = 1
       \<and> vehicle_loop (RoutingIndexManager 2 1 0) [(0, 0), (0, 1)] (0, 0) one_stop [0..<1] ([], 0)
           = Some ([[(0, 0), (0, 1), (0, 0)]], 60)"
proof -
  have sol: "(\<lambda>matrix v. Some one_stop) (distance_matrix [(0, 0), (0, 1)]) (1::nat) = Some one_stop"
    by simp
  have valid: "valid_assignment (RoutingIndexManager 2 1 0) one_stop"
    using one_stop_valid by (simp add: numeral_2_eq_2)
  show ?thesis
    by (rule single_shelter_single_vehicle
      [where solve_with_parameters = "\<lambda>matrix v. Some one_stop", OF sol valid])
qed

section \<open>The stored total distance\<close>

text \<open>
  The objective of an assignment, as the library computes it, is the transit of the
  traversed arcs plus the fixed cost of 1000 for every vehicle that is used; a vehicle
  that is not used contributes nothing, its only arc being from the depot to the depot.
\<close>

lemma fixed_costs_apart:
  "\<forall>v \<in> set vs. \<not> P v \<longrightarrow> f v = 0 \<Longrightarrow>
   (\<Sum>v\<leftarrow>vs. if P v then 1000 + f v else (0::int))
     = (\<Sum>v\<leftarrow>vs. f v) + 1000 * int (length (filter P vs))"
  by (induction vs) auto

lemma unused_vehicle_transit:
  assumes v: "v < num_vehicles m" and d: "depot m < num_nodes m"
    and len: "length locs = num_nodes m" and unused: "\<not> vehicle_used m sol v"
  shows "route_transit (distance_matrix locs) m sol v = 0"
proof -
  from v have "num_nodes m \<le> routing_Size m" by (simp add: routing_Size_def)
  with unused have "IndexToNode m (Value sol (routing_Start m v)) = depot m"
    by (simp add: vehicle_used_def routing_IsEnd_def IndexToNode_def)
  then show ?thesis
    using d len
    by (simp add: route_transit_def vehicle_path_unused [OF v d unused] distance_callback_def
        IndexToNode_Start [OF d] distance_matrix_entry)
qed

lemma objective_is_transit_plus_fixed_costs:
  assumes d: "depot m < num_nodes m" and len: "length locs = num_nodes m"
  shows "routing_objective (distance_matrix locs) m sol
       = total_transit (distance_matrix locs) m sol
         + 1000 * int (length (filter (vehicle_used m sol) [0..<num_vehicles m]))"
  unfolding routing_objective_def total_transit_def
  using unused_vehicle_transit [OF _ d len]
  by (intro fixed_costs_apart) simp

text \<open>
  Hence, whenever the objective of the assignment is what the library computes, the
  stored total distance is the transit of the traversed arcs divided by 1000, plus 1 for
  every vehicle that is used.
\<close>

lemma stored_distance_counts_used_vehicles:
  assumes "shelters \<noteq> []"
    and "solve_with_parameters (distance_matrix (start_point # shelters)) n_vehicles = Some sol"
    and "valid_assignment (RoutingIndexManager (Suc (length shelters)) n_vehicles 0) sol"
    and "ObjectiveValue sol = routing_objective (distance_matrix (start_point # shelters))
           (RoutingIndexManager (Suc (length shelters)) n_vehicles 0) sol"
  shows "\<exists>st'. solve_vrp solve_with_parameters start_point shelters n_vehicles st = Some ([], st')
       \<and> route_distance st'
           = Some (real_of_int (total_transit (distance_matrix (start_point # shelters))
                     (RoutingIndexManager (Suc (length shelters)) n_vehicles 0) sol) / 1000
                   + real (length (filter
                       (vehicle_used (RoutingIndexManager (Suc (length shelters)) n_vehicles 0) sol)
                       [0..<n_vehicles])))"
proof -
  let ?m = "RoutingIndexManager (Suc (length shelters)) n_vehicles 0"
  have "ObjectiveValue sol = total_transit (distance_matrix (start_point # shelters)) ?m sol
      + 1000 * int (length (filter (vehicle_used ?m sol) [0..<n_vehicles]))"
    using objective_is_transit_plus_fixed_costs [of ?m "start_point # shelters" sol] assms(4)
    by simp
  then show ?thesis
    by (simp add: solve_vrp_success [where solve_with_parameters = solve_with_parameters,
          OF assms(1-3)] add_divide_distrib)
qed

lemma one_stop_matrix:
  "distance_matrix [(0, 0), (0, 1)] = [[0, 100000], [100000, 0]]"
  by (simp add: distance_matrix_def Let_def upt_rec point_distance_def py_int_def)

lemma one_stop_Value: "Value one_stop 0 = Suc 0" "Value one_stop (Suc 0) = 2"
  by (simp_all add: one_stop_def)

lemma one_stop_path: "vehicle_path (RoutingIndexManager 2 (Suc 0) 0) one_stop 0 = [0, Suc 0]"
  by (simp add: vehicle_path_def routing_Size_def routing_Start_def routing_IsEnd_def
      numeral_2_eq_2 one_stop_Value)

lemma one_stop_transit:
  "total_transit (distance_matrix [(0, 0), (0, 1)]) (RoutingIndexManager 2 1 0) one_stop = 200000"
  by (simp add: total_transit_def route_transit_def one_stop_path one_stop_matrix
      distance_callback_def IndexToNode_def one_stop_Value)

lemma one_stop_objective:
  "routing_objective (distance_matrix [(0, 0), (0, 1)]) (RoutingIndexManager 2 1 0) one_stop = 201000"
  by (simp add: routing_objective_def route_transit_def one_stop_path one_stop_matrix
      distance_callback_def IndexToNode_def vehicle_used_def routing_Start_def routing_IsEnd_def
      routing_Size_def one_stop_Value)

text \<open>
  C1 on the code. Origin (0, 0), the single destination (0, 1), one vehicle. The only
  valid assignment is \<open>one_stop\<close>; its objective, as the library computes it, is the
  transit of the two arcs (200000) plus the fixed cost of the one vehicle used (1000).
  \<^verbatim>\<open>solve_vrp\<close> stores the objective divided by 1000, that is 201, as the total distance,
  while the transit of the traversed arcs divided by 1000 is 200 and the geometric length
  of the extracted route is 2 (200 on the same scale).
\<close>

theorem total_distance_includes_fixed_cost:
  "valid_assignment (RoutingIndexManager 2 1 0) one_stop
   \<and> ObjectiveValue one_stop
       = routing_objective (distance_matrix [(0, 0), (0, 1)]) (RoutingIndexManager 2 1 0) one_stop
   \<and> total_transit (distance_matrix [(0, 0), (0, 1)]) (RoutingIndexManager 2 1 0) one_stop = 200000
   \<and> solve_vrp (\<lambda>matrix v. Some one_stop) (0, 0) [(0, 1)] 1 initial_state
       = Some ([], \<lparr>route_data = [[(0, 0), (0, 1), (0, 0)]], route_distance = Some 201,
                    route_time = Some 361.35\<rparr>)
   \<and> path_length [(0, 0), (0, 1), (0, 0)] = 2"
proof -
  have valid: "valid_assignment (RoutingIndexManager 2 1 0) one_stop"
    using one_stop_valid by (simp add: numeral_2_eq_2)
  have obj: "ObjectiveValue one_stop = 201000" by (simp add: one_stop_def)
  have ne: "[(0::real, 1::real)] \<noteq> []" by simp
  have sol: "(\<lambda>matrix v. Some one_stop) (distance_matrix ((0, 0) # [(0, 1)])) (1::nat) = Some one_stop"
    by simp
  have route: "route_of (RoutingIndexManager 2 1 0) [(0, 0), (0, 1)] one_stop 0
      = [(0, 0), (0, 1), (0, 0)]"
    by (simp add: route_of_def node_route_def one_stop_path IndexToNode_def)
  have run: "solve_vrp (\<lambda>matrix v. Some one_stop) (0, 0) [(0, 1)] 1 initial_state
       = Some ([], \<lparr>route_data = [[(0, 0), (0, 1), (0, 0)]], route_distance = Some 201,
                    route_time = Some 361.35\<rparr>)"
    unfolding solve_vrp_success [where solve_with_parameters = "\<lambda>matrix v. Some one_stop",
        OF ne sol one_stop_valid]
    using route
    by (simp add: numeral_2_eq_2 obj initial_state_def py_round2_def round_half_even_def Let_def)
  have len: "path_length [(0, 0), (0, 1), (0, 0)] = 2"
    by (simp add: point_distance_def)
  from valid obj one_stop_objective one_stop_transit run len show ?thesis by simp
qed

section \<open>Every index lies on the route of exactly one vehicle\<close>

lemma vehicle_path_full: "vehicle_path m sol v = full_path m sol (routing_Start m v)"
  by (simp add: vehicle_path_def full_path_def)

lemma valid_inj: "valid_assignment m sol \<Longrightarrow> inj_on (Value sol) {..<routing_Size m}"
  by (simp add: valid_assignment_def distinct_map lessThan_atLeast0)

lemma valid_range:
  "valid_assignment m sol \<Longrightarrow> i < routing_Size m \<Longrightarrow>
   Value sol i < routing_Size m + num_vehicles m \<and> Value sol i \<notin> set (start_indices m)"
  by (simp add: valid_assignment_def list_all_iff)

lemma index_path_fuel:
  "reaches_end m sol k i \<Longrightarrow> k \<le> k' \<Longrightarrow> index_path m sol k' i = index_path m sol k i"
proof (induction k arbitrary: k' i)
  case 0
  then show ?case by (simp add: index_path_end)
next
  case (Suc k)
  from Suc.prems(2) obtain j where k': "k' = Suc j" and le: "k \<le> j"
    by (cases k') simp_all
  show ?case
  proof (cases "routing_IsEnd m i")
    case True
    then show ?thesis by (simp add: index_path_end)
  next
    case False
    with Suc.prems(1) have "reaches_end m sol k (Value sol i)" by simp
    from Suc.IH [OF this le] False show ?thesis by (simp add: k')
  qed
qed

lemma full_path_end: "routing_Size m \<le> i \<Longrightarrow> full_path m sol i = []"
  by (simp add: full_path_def index_path_end routing_IsEnd_def)

lemma full_path_step:
  assumes "valid_assignment m sol" and "i < routing_Size m"
  shows "full_path m sol i = i # full_path m sol (Value sol i)"
proof -
  from assms(2) obtain k where k: "routing_Size m = Suc k"
    by (cases "routing_Size m") simp_all
  from assms(2) have ne: "\<not> routing_IsEnd m i" by (simp add: routing_IsEnd_def)
  from valid_reaches_end [OF assms] ne have "reaches_end m sol k (Value sol i)"
    by (simp add: k)
  then have "index_path m sol (Suc k) (Value sol i) = index_path m sol k (Value sol i)"
    by (rule index_path_fuel) simp
  with ne show ?thesis by (simp add: full_path_def k)
qed

lemma index_path_below: "x \<in> set (index_path m sol k i) \<Longrightarrow> x < routing_Size m"
  by (induction k arbitrary: i) (auto simp: routing_IsEnd_def split: if_splits)

lemma full_path_below: "x \<in> set (full_path m sol i) \<Longrightarrow> x < routing_Size m"
  unfolding full_path_def by (rule index_path_below)

lemma index_path_length: "length (index_path m sol k i) \<le> k"
  by (induction k arbitrary: i) auto

lemma full_path_length: "length (full_path m sol i) \<le> routing_Size m"
  unfolding full_path_def by (rule index_path_length)

lemma full_path_suffix:
  assumes valid: "valid_assignment m sol"
  shows "x \<in> set (full_path m sol i) \<Longrightarrow> \<exists>pre. full_path m sol i = pre @ full_path m sol x"
proof (induction "length (full_path m sol i)" arbitrary: i rule: less_induct)
  case less
  from less.prems have "full_path m sol i \<noteq> []" by auto
  then have lt: "i < routing_Size m"
    using full_path_end [of m i sol] by (cases "i < routing_Size m") auto
  note step = full_path_step [OF valid lt]
  show ?case
  proof (cases "x = i")
    case True
    then show ?thesis by simp
  next
    case False
    with less.prems step have mem: "x \<in> set (full_path m sol (Value sol i))" by simp
    have "length (full_path m sol (Value sol i)) < length (full_path m sol i)"
      by (simp add: step)
    from less.hyps [OF this mem] obtain pre
      where "full_path m sol (Value sol i) = pre @ full_path m sol x" by blast
    then have "full_path m sol i = (i # pre) @ full_path m sol x" by (simp add: step)
    then show ?thesis by blast
  qed
qed

lemma full_path_succ:
  assumes valid: "valid_assignment m sol"
    and mem: "x \<in> set (full_path m sol i)"
    and lt: "Value sol x < routing_Size m"
  shows "Value sol x \<in> set (full_path m sol i)"
proof -
  from full_path_suffix [OF valid mem] obtain pre
    where pre: "full_path m sol i = pre @ full_path m sol x" by blast
  from mem have "x < routing_Size m" by (rule full_path_below)
  then have "full_path m sol x = x # full_path m sol (Value sol x)"
    by (rule full_path_step [OF valid])
  also have "full_path m sol (Value sol x) = Value sol x # full_path m sol (Value sol (Value sol x))"
    by (rule full_path_step [OF valid lt])
  finally show ?thesis by (simp add: pre)
qed

lemma full_path_distinct:
  assumes valid: "valid_assignment m sol"
  shows "distinct (full_path m sol i)"
proof (induction "length (full_path m sol i)" arbitrary: i rule: less_induct)
  case less
  show ?case
  proof (cases "i < routing_Size m")
    case False
    then show ?thesis by (simp add: full_path_end)
  next
    case True
    note step = full_path_step [OF valid True]
    have shorter: "length (full_path m sol (Value sol i)) < length (full_path m sol i)"
      by (simp add: step)
    have "i \<notin> set (full_path m sol (Value sol i))"
    proof
      assume "i \<in> set (full_path m sol (Value sol i))"
      from full_path_suffix [OF valid this] obtain pre
        where "full_path m sol (Value sol i) = pre @ full_path m sol i" by blast
      then have "length (full_path m sol i) \<le> length (full_path m sol (Value sol i))" by simp
      with shorter show False by simp
    qed
    with less.hyps [OF shorter] show ?thesis by (simp add: step)
  qed
qed

lemma index_path_iterate:
  "x \<in> set (index_path m sol k i) \<Longrightarrow>
   \<exists>l. x = (Value sol ^^ l) i \<and> (\<forall>j \<le> l. (Value sol ^^ j) i < routing_Size m)"
proof (induction k arbitrary: i)
  case 0
  then show ?case by simp
next
  case (Suc k)
  from Suc.prems have lt: "i < routing_Size m"
    by (auto simp: routing_IsEnd_def split: if_splits)
  show ?case
  proof (cases "x = i")
    case True
    with lt have "x = (Value sol ^^ 0) i \<and> (\<forall>j \<le> 0. (Value sol ^^ j) i < routing_Size m)"
      by simp
    then show ?thesis by blast
  next
    case False
    with Suc.prems have "x \<in> set (index_path m sol k (Value sol i))"
      by (auto split: if_splits)
    from Suc.IH [OF this] obtain l
      where x: "x = (Value sol ^^ l) (Value sol i)"
        and below: "\<forall>j \<le> l. (Value sol ^^ j) (Value sol i) < routing_Size m"
      by blast
    have "x = (Value sol ^^ Suc l) i" by (simp add: x funpow_swap1)
    moreover have "(Value sol ^^ j) i < routing_Size m" if "j \<le> Suc l" for j
    proof (cases j)
      case 0
      with lt show ?thesis by simp
    next
      case (Suc j')
      with that below show ?thesis by (simp add: funpow_swap1)
    qed
    ultimately show ?thesis by blast
  qed
qed

lemma start_not_successor:
  assumes valid: "valid_assignment m sol"
    and s: "s \<in> set (start_indices m)"
    and a: "a < routing_Size m"
  shows "Value sol a \<noteq> s"
  using valid_range [OF valid a] s by auto

lemma common_index_same_start:
  assumes valid: "valid_assignment m sol"
    and s: "s \<in> set (start_indices m)" and s': "s' \<in> set (start_indices m)"
  shows "(Value sol ^^ l) s = (Value sol ^^ l') s' \<Longrightarrow>
         \<forall>j \<le> l. (Value sol ^^ j) s < routing_Size m \<Longrightarrow>
         \<forall>j \<le> l'. (Value sol ^^ j) s' < routing_Size m \<Longrightarrow> s = s'"
proof (induction l arbitrary: l')
  case 0
  show ?case
  proof (cases l')
    case 0
    with "0.prems"(1) show ?thesis by simp
  next
    case (Suc k)
    from "0.prems"(3) Suc have "(Value sol ^^ k) s' < routing_Size m" by simp
    from start_not_successor [OF valid s this] "0.prems"(1) Suc show ?thesis by simp
  qed
next
  case (Suc l)
  from Suc.prems(2) have a: "(Value sol ^^ l) s < routing_Size m" by simp
  show ?case
  proof (cases l')
    case 0
    from start_not_successor [OF valid s' a] Suc.prems(1) 0 show ?thesis by simp
  next
    case (Suc k)
    from Suc.prems(3) Suc have b: "(Value sol ^^ k) s' < routing_Size m" by simp
    from Suc.prems(1) Suc
    have "Value sol ((Value sol ^^ l) s) = Value sol ((Value sol ^^ k) s')" by simp
    with valid_inj [OF valid] a b have eq: "(Value sol ^^ l) s = (Value sol ^^ k) s'"
      by (auto dest: inj_onD)
    from Suc.prems(2) have "\<forall>j \<le> l. (Value sol ^^ j) s < routing_Size m" by simp
    moreover from Suc.prems(3) Suc have "\<forall>j \<le> k. (Value sol ^^ j) s' < routing_Size m" by simp
    ultimately show ?thesis using Suc.IH [OF eq] by blast
  qed
qed

lemma full_paths_disjoint:
  assumes valid: "valid_assignment m sol"
    and s: "s \<in> set (start_indices m)" and s': "s' \<in> set (start_indices m)"
    and x: "x \<in> set (full_path m sol s)" and x': "x \<in> set (full_path m sol s')"
  shows "s = s'"
proof -
  from x obtain l where l: "x = (Value sol ^^ l) s"
      "\<forall>j \<le> l. (Value sol ^^ j) s < routing_Size m"
    unfolding full_path_def by (blast dest: index_path_iterate)
  from x' obtain l' where l': "x = (Value sol ^^ l') s'"
      "\<forall>j \<le> l'. (Value sol ^^ j) s' < routing_Size m"
    unfolding full_path_def by (blast dest: index_path_iterate)
  from l(1) l'(1) have "(Value sol ^^ l) s = (Value sol ^^ l') s'" by simp
  from common_index_same_start [OF valid s s' this l(2) l'(2)] show ?thesis .
qed

lemma start_indices_eq:
  assumes "depot m < num_nodes m" and "0 < num_vehicles m"
  shows "start_indices m = depot m # [num_nodes m..<routing_Size m]"
proof (rule nth_equalityI)
  show "length (start_indices m) = length (depot m # [num_nodes m..<routing_Size m])"
    using assms by (simp add: start_indices_def routing_Size_def)
next
  fix i
  assume "i < length (start_indices m)"
  then have i: "i < num_vehicles m" by (simp add: start_indices_def)
  show "start_indices m ! i = (depot m # [num_nodes m..<routing_Size m]) ! i"
  proof (cases i)
    case 0
    with i show ?thesis by (simp add: start_indices_def routing_Start_def)
  next
    case (Suc j)
    with i show ?thesis
      by (simp add: start_indices_def routing_Start_def routing_Size_def)
  qed
qed

lemma start_indices_distinct:
  assumes "depot m < num_nodes m" and "0 < num_vehicles m"
  shows "distinct (start_indices m)"
  using assms by (simp add: start_indices_eq)

lemma start_indices_below:
  assumes "depot m < num_nodes m" and "0 < num_vehicles m"
  shows "set (start_indices m) \<subseteq> {..<routing_Size m}"
  using assms by (auto simp: start_indices_eq routing_Size_def)

lemma predecessor_exists:
  assumes valid: "valid_assignment m sol"
    and d: "depot m < num_nodes m" and v: "0 < num_vehicles m"
    and j: "j < routing_Size m" and ns: "j \<notin> set (start_indices m)"
  shows "\<exists>i < routing_Size m. Value sol i = j"
proof -
  let ?S = "routing_Size m"
  let ?T = "{..<?S + num_vehicles m} - set (start_indices m)"
  have sub: "Value sol ` {..<?S} \<subseteq> ?T"
    using valid_range [OF valid] by auto
  have "set (start_indices m) \<subseteq> {..<?S + num_vehicles m}"
    using start_indices_below [OF d v] by auto
  then have "card ?T = card {..<?S + num_vehicles m} - card (set (start_indices m))"
    by (simp add: card_Diff_subset)
  also have "card (set (start_indices m)) = num_vehicles m"
    using distinct_card [OF start_indices_distinct [OF d v]]
    by (simp add: start_indices_def)
  finally have "card ?T = ?S" by simp
  moreover have "card (Value sol ` {..<?S}) = ?S"
    using valid_inj [OF valid] by (simp add: card_image)
  ultimately have "Value sol ` {..<?S} = ?T"
    using sub by (intro card_subset_eq) simp_all
  moreover from j ns have "j \<in> ?T" by simp
  ultimately have "j \<in> Value sol ` {..<?S}" by simp
  then show ?thesis by (auto simp: image_iff)
qed

lemma every_index_on_a_route:
  assumes valid: "valid_assignment m sol"
    and d: "depot m < num_nodes m" and v: "0 < num_vehicles m"
  shows "j < routing_Size m \<Longrightarrow> \<exists>s \<in> set (start_indices m). j \<in> set (full_path m sol s)"
proof (induction "routing_Size m - length (full_path m sol j)" arbitrary: j rule: less_induct)
  case less
  note j = less.prems
  have own: "full_path m sol j = j # full_path m sol (Value sol j)"
    by (rule full_path_step [OF valid j])
  show ?case
  proof (cases "j \<in> set (start_indices m)")
    case True
    from own have "j \<in> set (full_path m sol j)" by simp
    with True show ?thesis by blast
  next
    case False
    from predecessor_exists [OF valid d v j False] obtain i
      where i: "i < routing_Size m" and ij: "Value sol i = j" by blast
    have pi: "full_path m sol i = i # full_path m sol j"
      using full_path_step [OF valid i] ij by simp
    have "length (full_path m sol i) \<le> routing_Size m" by (rule full_path_length)
    with pi have "routing_Size m - length (full_path m sol i)
        < routing_Size m - length (full_path m sol j)" by simp
    from less.hyps [OF this i] obtain s
      where s: "s \<in> set (start_indices m)" and mem: "i \<in> set (full_path m sol s)" by blast
    from full_path_succ [OF valid mem] ij j have "j \<in> set (full_path m sol s)" by simp
    with s show ?thesis by blast
  qed
qed

lemma full_paths_partition:
  assumes valid: "valid_assignment m sol"
    and d: "depot m < num_nodes m" and v: "0 < num_vehicles m"
  shows "distinct (concat (map (full_path m sol) (start_indices m)))"
    and "set (concat (map (full_path m sol) (start_indices m))) = {..<routing_Size m}"
proof -
  have head: "full_path m sol s = s # full_path m sol (Value sol s)"
    if "s \<in> set (start_indices m)" for s
  proof -
    from start_indices_below [OF d v] that have "s < routing_Size m" by blast
    then show ?thesis by (rule full_path_step [OF valid])
  qed
  have "inj_on (full_path m sol) (set (start_indices m))"
  proof (rule inj_onI)
    fix s s'
    assume s: "s \<in> set (start_indices m)" and s': "s' \<in> set (start_indices m)"
      and eq: "full_path m sol s = full_path m sol s'"
    from head [OF s] have "hd (full_path m sol s) = s" by (metis list.sel(1))
    moreover from head [OF s'] have "hd (full_path m sol s') = s'" by (metis list.sel(1))
    ultimately show "s = s'" using eq by metis
  qed
  with start_indices_distinct [OF d v]
  have "distinct (map (full_path m sol) (start_indices m))" by (simp add: distinct_map)
  moreover have "distinct ys" if "ys \<in> set (map (full_path m sol) (start_indices m))" for ys
    using that full_path_distinct [OF valid] by auto
  moreover have "set ys \<inter> set zs = {}"
    if "ys \<in> set (map (full_path m sol) (start_indices m))"
      and "zs \<in> set (map (full_path m sol) (start_indices m))" and "ys \<noteq> zs" for ys zs
  proof -
    from that(1) obtain s where s: "s \<in> set (start_indices m)" "ys = full_path m sol s" by auto
    from that(2) obtain s' where s': "s' \<in> set (start_indices m)" "zs = full_path m sol s'" by auto
    show ?thesis
    proof (rule ccontr)
      assume "set ys \<inter> set zs \<noteq> {}"
      then obtain x where "x \<in> set ys" "x \<in> set zs" by auto
      with s s' have "s = s'" by (auto intro: full_paths_disjoint [OF valid])
      with s s' that(3) show False by simp
    qed
  qed
  ultimately show "distinct (concat (map (full_path m sol) (start_indices m)))"
    by (rule distinct_concat)
  show "set (concat (map (full_path m sol) (start_indices m))) = {..<routing_Size m}"
  proof (rule set_eqI)
    fix x
    show "x \<in> set (concat (map (full_path m sol) (start_indices m))) \<longleftrightarrow> x \<in> {..<routing_Size m}"
      using every_index_on_a_route [OF valid d v, of x] full_path_below [of x m sol]
      by auto
  qed
qed

lemma full_paths_mset:
  assumes valid: "valid_assignment m sol"
    and d: "depot m < num_nodes m" and v: "0 < num_vehicles m"
  shows "mset (concat (map (full_path m sol) (start_indices m))) = mset [0..<routing_Size m]"
proof -
  have "set (concat (map (full_path m sol) (start_indices m))) = set [0..<routing_Size m]"
    using full_paths_partition(2) [OF assms] by (simp add: lessThan_atLeast0)
  with full_paths_partition(1) [OF assms] show ?thesis
    by (simp only: set_eq_iff_mset_eq_distinct [symmetric] distinct_upt)
qed

lemma heads_and_tails:
  "\<forall>s \<in> set ss. p s = s # tl (p s) \<Longrightarrow>
   mset (concat (map p ss)) = mset ss + mset (concat (map (\<lambda>s. tl (p s)) ss))"
proof (induction ss)
  case Nil
  then show ?case by simp
next
  case (Cons s ss)
  from Cons.prems have "p s = s # tl (p s)" by simp
  then have "mset (p s) = add_mset s (mset (tl (p s)))" by (metis mset.simps(2))
  with Cons show ?case by simp
qed

lemma starts_and_nodes:
  assumes "depot m = 0" and "0 < num_nodes m" and "0 < num_vehicles m"
  shows "mset (start_indices m) + mset [1..<num_nodes m] = mset [0..<routing_Size m]"
proof -
  have d: "depot m < num_nodes m" using assms by simp
  have size: "routing_Size m = num_nodes m + (num_vehicles m - 1)"
    using assms by (simp add: routing_Size_def)
  have "Suc 0 \<le> num_nodes m" using assms by simp
  then have tail: "[Suc 0..<routing_Size m] = [Suc 0..<num_nodes m] @ [num_nodes m..<routing_Size m]"
    unfolding size by (rule upt_add_eq_append)
  have "0 < routing_Size m" using assms by (simp add: size)
  then have "[0..<routing_Size m] = 0 # [Suc 0..<routing_Size m]" by (simp add: upt_conv_Cons)
  with tail show ?thesis
    using assms by (simp add: start_indices_eq [OF d assms(3)] del: mset_upt)
qed

lemma no_end_without_vehicles:
  assumes "\<forall>i < routing_Size m. Value sol i < routing_Size m"
  shows "i < routing_Size m \<Longrightarrow> \<not> reaches_end m sol k i"
  using assms by (induction k arbitrary: i) (auto simp: routing_IsEnd_def)

lemma valid_has_vehicle:
  assumes valid: "valid_assignment m sol" and "0 < routing_Size m"
  shows "0 < num_vehicles m"
proof (rule ccontr)
  assume "\<not> 0 < num_vehicles m"
  then have "\<forall>i < routing_Size m. Value sol i < routing_Size m"
    using valid_range [OF valid] by auto
  from no_end_without_vehicles [OF this assms(2)] valid_reaches_end [OF valid assms(2)]
  show False by blast
qed

lemma index_path_successors:
  "x \<in> set (index_path m sol k i) \<Longrightarrow> x = i \<or> (\<exists>y < routing_Size m. Value sol y = x)"
proof (induction k arbitrary: i)
  case 0
  then show ?case by simp
next
  case (Suc k)
  from Suc.prems have lt: "i < routing_Size m"
    by (auto simp: routing_IsEnd_def split: if_splits)
  show ?case
  proof (cases "x = i")
    case True
    then show ?thesis by simp
  next
    case False
    with Suc.prems have "x \<in> set (index_path m sol k (Value sol i))"
      by (auto split: if_splits)
    from Suc.IH [OF this] lt show ?thesis by blast
  qed
qed

text \<open>What follows the start on a route are indices of destinations.\<close>

lemma route_tail_nodes:
  assumes valid: "valid_assignment m sol"
    and d: "depot m < num_nodes m" and v: "0 < num_vehicles m"
    and s: "s \<in> set (start_indices m)"
    and x: "x \<in> set (tl (full_path m sol s))"
  shows "x < num_nodes m \<and> x \<noteq> depot m"
proof -
  from s start_indices_below [OF d v] have "s < routing_Size m" by blast
  from full_path_step [OF valid this] x
  have mem: "x \<in> set (full_path m sol (Value sol s))" by simp
  then have below: "x < routing_Size m" by (rule full_path_below)
  from mem have "x = Value sol s \<or> (\<exists>y < routing_Size m. Value sol y = x)"
    unfolding full_path_def by (rule index_path_successors)
  with \<open>s < routing_Size m\<close> obtain y where "y < routing_Size m" "Value sol y = x" by blast
  with valid_range [OF valid] have "x \<notin> set (start_indices m)" by blast
  with below show ?thesis
    by (auto simp: start_indices_eq [OF d v])
qed

lemma interior_node_route:
  assumes valid: "valid_assignment m sol"
    and d: "depot m < num_nodes m" and v: "vh < num_vehicles m"
  shows "interior (node_route m sol vh) = tl (full_path m sol (routing_Start m vh))"
proof -
  let ?s = "routing_Start m vh"
  from v have pos: "0 < num_vehicles m" by simp
  from v have s: "?s \<in> set (start_indices m)" by (simp add: start_indices_def)
  from s start_indices_below [OF d pos] have "?s < routing_Size m" by blast
  from full_path_step [OF valid this] obtain rest
    where rest: "full_path m sol ?s = ?s # rest" by blast
  have "map (IndexToNode m) rest = rest"
    using route_tail_nodes [OF valid d pos s]
    by (intro map_idI) (simp add: IndexToNode_def rest)
  moreover have "interior (node_route m sol vh) = map (IndexToNode m) rest"
    by (simp add: interior_def node_route_def vehicle_path_full rest)
  ultimately show ?thesis by (simp add: rest)
qed

section \<open>Coverage of the destinations\<close>

lemma destinations_once:
  assumes valid: "valid_assignment m sol"
    and d0: "depot m = 0" and n: "1 < num_nodes m"
  shows "mset (concat (map (\<lambda>v. interior (node_route m sol v)) [0..<num_vehicles m]))
       = mset [1..<num_nodes m]"
proof -
  from n d0 have d: "depot m < num_nodes m" by simp
  from n have "0 < routing_Size m" by (simp add: routing_Size_def)
  with valid have pos: "0 < num_vehicles m" by (rule valid_has_vehicle)
  let ?tails = "concat (map (\<lambda>s. tl (full_path m sol s)) (start_indices m))"
  have "map (\<lambda>v. interior (node_route m sol v)) [0..<num_vehicles m]
      = map (\<lambda>s. tl (full_path m sol s)) (start_indices m)"
    using interior_node_route [OF valid d] by (simp add: start_indices_def)
  then have same: "concat (map (\<lambda>v. interior (node_route m sol v)) [0..<num_vehicles m]) = ?tails"
    by simp
  have heads: "\<forall>s \<in> set (start_indices m). full_path m sol s = s # tl (full_path m sol s)"
  proof
    fix s
    assume "s \<in> set (start_indices m)"
    with start_indices_below [OF d pos] have "s < routing_Size m" by blast
    from full_path_step [OF valid this] show "full_path m sol s = s # tl (full_path m sol s)"
      by simp
  qed
  have "mset (start_indices m) + mset ?tails
      = mset (concat (map (full_path m sol) (start_indices m)))"
    using heads_and_tails [OF heads] by simp
  also have "\<dots> = mset [0..<routing_Size m]"
    by (rule full_paths_mset [OF valid d pos])
  also have "\<dots> = mset (start_indices m) + mset [1..<num_nodes m]"
    using starts_and_nodes [OF d0 _ pos] n by simp
  finally have "mset ?tails = mset [1..<num_nodes m]" by simp
  with same show ?thesis by simp
qed

lemma interior_map: "interior (map g r) = map g (interior r)"
  by (simp add: interior_def map_butlast map_tl)

lemma nth_destinations: "map (\<lambda>k. (a # xs) ! k) [1..<Suc (length xs)] = xs"
proof -
  have "map (\<lambda>k. (a # xs) ! k) [Suc 0..<Suc (length xs)]
      = map (\<lambda>k. (a # xs) ! k) (map Suc [0..<length xs])"
    by (simp only: map_Suc_upt)
  also have "\<dots> = map (\<lambda>k. xs ! k) [0..<length xs]" by simp
  also have "\<dots> = xs" by (rule map_nth)
  finally show ?thesis by simp
qed

text \<open>
  C2. After a solve that gets a valid assignment, the routes are the node routes of the
  vehicles read through the location list; the destinations of all node routes together
  are the indices 1 to N, each exactly once; and so the coordinates between the depot
  entries of all stored routes are, as a multiset, exactly the selected shelters.
\<close>

theorem every_destination_exactly_once:
  assumes "shelters \<noteq> []"
    and "solve_with_parameters (distance_matrix (start_point # shelters)) n_vehicles = Some sol"
    and "valid_assignment (RoutingIndexManager (Suc (length shelters)) n_vehicles 0) sol"
  shows "\<exists>st'. solve_vrp solve_with_parameters start_point shelters n_vehicles st = Some ([], st')
       \<and> route_data st'
           = map (\<lambda>v. map (\<lambda>k. (start_point # shelters) ! k)
                    (node_route (RoutingIndexManager (Suc (length shelters)) n_vehicles 0) sol v))
               [0..<n_vehicles]
       \<and> mset (concat (map (\<lambda>v. interior
                    (node_route (RoutingIndexManager (Suc (length shelters)) n_vehicles 0) sol v))
               [0..<n_vehicles]))
           = mset [1..<Suc (length shelters)]
       \<and> mset (concat (map interior (route_data st'))) = mset shelters"
proof -
  let ?m = "RoutingIndexManager (Suc (length shelters)) n_vehicles 0"
  let ?locs = "start_point # shelters"
  let ?g = "\<lambda>k. ?locs ! k"
  let ?data = "map (\<lambda>v. map ?g (node_route ?m sol v)) [0..<n_vehicles]"
  let ?st' = "st\<lparr>route_data := ?data,
      route_distance := Some (real_of_int (ObjectiveValue sol) / 1000),
      route_time := Some (py_round2 (real_of_int (ObjectiveValue sol) / 1000 / 0.667)
         + real_of_int (\<Sum>v\<leftarrow>[0..<n_vehicles]. (int (length (route_of ?m ?locs sol v)) - 2) * 60))\<rparr>"
  have run: "solve_vrp solve_with_parameters start_point shelters n_vehicles st = Some ([], ?st')"
    unfolding solve_vrp_success [where solve_with_parameters = solve_with_parameters, OF assms]
    by (simp add: route_of_def)
  from assms(1) have n: "1 < num_nodes ?m" by (cases shelters) simp_all
  have nodes: "mset (concat (map (\<lambda>v. interior (node_route ?m sol v)) [0..<n_vehicles]))
      = mset [1..<Suc (length shelters)]"
    using destinations_once [OF assms(3) _ n] by simp
  have "concat (map interior ?data)
      = map ?g (concat (map (\<lambda>v. interior (node_route ?m sol v)) [0..<n_vehicles]))"
    by (simp add: map_concat o_def interior_map)
  then have "mset (concat (map interior ?data)) = image_mset ?g (mset [1..<Suc (length shelters)])"
    using nodes by (simp del: mset_upt)
  also have "\<dots> = mset (map ?g [1..<Suc (length shelters)])" by (simp del: mset_upt)
  also have "\<dots> = mset shelters" by (simp only: nth_destinations)
  finally have coords: "mset (concat (map interior (route_data ?st'))) = mset shelters" by simp
  have data: "route_data ?st' = ?data" by simp
  from run data nodes coords show ?thesis by blast
qed

theorem every_destination_exactly_once_witness:
  "\<exists>st'. solve_vrp (\<lambda>matrix v. Some one_stop) (0, 0) [(0, 1)] 1 initial_state = Some ([], st')
       \<and> mset (concat (map interior (route_data st'))) = mset [(0, 1)]"
proof -
  have ne: "[(0::real, 1::real)] \<noteq> []" by simp
  have sol: "(\<lambda>matrix v. Some one_stop) (distance_matrix ((0, 0) # [(0, 1)])) (1::nat) = Some one_stop"
    by simp
  from every_destination_exactly_once
      [where solve_with_parameters = "\<lambda>matrix v. Some one_stop" and st = initial_state
         and start_point = "(0, 0)", OF ne sol one_stop_valid]
  show ?thesis by blast
qed

section \<open>The stored total time\<close>

lemma stop_time_sum:
  "(\<Sum>v\<leftarrow>vs. (int (length (r v)) - 2) * 60)
     = 60 * (\<Sum>route\<leftarrow>map r vs. int (length route) - 2)"
  by (induction vs) (simp_all add: algebra_simps)

lemma stops_are_interior:
  assumes "v < num_vehicles m" and "depot m < num_nodes m"
  shows "int (length (route_of m locs sol v)) - 2 = int (length (interior (node_route m sol v)))"
  using route_of_shape [OF assms, of locs sol]
  by (simp add: interior_def route_of_def)

lemma int_sum_list_length:
  "(\<Sum>x\<leftarrow>xs. int (length (f x))) = int (length (concat (map f xs)))"
  by (induction xs) simp_all

lemma total_stops:
  assumes valid: "valid_assignment m sol"
    and d0: "depot m = 0" and n: "1 < num_nodes m"
  shows "(\<Sum>v\<leftarrow>[0..<num_vehicles m]. int (length (route_of m locs sol v)) - 2)
       = int (num_nodes m) - 1"
proof -
  let ?f = "\<lambda>v. interior (node_route m sol v)"
  from n d0 have d: "depot m < num_nodes m" by simp
  have "(\<Sum>v\<leftarrow>[0..<num_vehicles m]. int (length (route_of m locs sol v)) - 2)
      = (\<Sum>v\<leftarrow>[0..<num_vehicles m]. int (length (?f v)))"
    using stops_are_interior [OF _ d] by (intro arg_cong [where f = sum_list] map_cong) simp_all
  also have "\<dots> = int (length (concat (map ?f [0..<num_vehicles m])))"
    by (rule int_sum_list_length)
  also have "length (concat (map ?f [0..<num_vehicles m]))
      = size (mset (concat (map ?f [0..<num_vehicles m])))" by simp
  also have "\<dots> = size (mset [1..<num_nodes m])"
    by (simp only: destinations_once [OF valid d0 n])
  finally show ?thesis using n by simp
qed

text \<open>
  C6. After a successful solve the stored time is \<^verbatim>\<open>round(total_distance / 0.667, 2)\<close>
  of the stored distance, plus 60 minutes for each stop, where the stops of a route are
  its length minus 2 (the depot at both ends is not counted). Over all routes the stops
  are as many as the selected shelters, so the service time is 60 minutes per shelter.
\<close>

theorem total_time_is_travel_plus_service:
  assumes "shelters \<noteq> []"
    and "solve_with_parameters (distance_matrix (start_point # shelters)) n_vehicles = Some sol"
    and "valid_assignment (RoutingIndexManager (Suc (length shelters)) n_vehicles 0) sol"
  shows "\<exists>st' total_distance.
           solve_vrp solve_with_parameters start_point shelters n_vehicles st = Some ([], st')
         \<and> route_distance st' = Some total_distance
         \<and> route_time st' = Some (py_round2 (total_distance / 0.667)
               + 60 * real_of_int (\<Sum>route\<leftarrow>route_data st'. int (length route) - 2))
         \<and> (\<Sum>route\<leftarrow>route_data st'. int (length route) - 2) = int (length shelters)"
proof -
  let ?m = "RoutingIndexManager (Suc (length shelters)) n_vehicles 0"
  let ?r = "route_of ?m (start_point # shelters) sol"
  let ?d = "real_of_int (ObjectiveValue sol) / 1000"
  let ?stops = "\<Sum>v\<leftarrow>[0..<n_vehicles]. (int (length (?r v)) - 2) * 60"
  let ?st' = "st\<lparr>route_data := map ?r [0..<n_vehicles], route_distance := Some ?d,
                   route_time := Some (py_round2 (?d / 0.667) + real_of_int ?stops)\<rparr>"
  have run: "solve_vrp solve_with_parameters start_point shelters n_vehicles st = Some ([], ?st')"
    by (rule solve_vrp_success [where solve_with_parameters = solve_with_parameters, OF assms])
  have "?stops = 60 * (\<Sum>route\<leftarrow>map ?r [0..<n_vehicles]. int (length route) - 2)"
    by (rule stop_time_sum)
  then have time: "route_time ?st' = Some (py_round2 (?d / 0.667)
      + 60 * real_of_int (\<Sum>route\<leftarrow>route_data ?st'. int (length route) - 2))"
    by simp
  from assms(1) have n: "1 < num_nodes ?m" by (cases shelters) simp_all
  have "(\<Sum>v\<leftarrow>[0..<n_vehicles]. int (length (?r v)) - 2) = int (length shelters)"
    using total_stops [OF assms(3) _ n, of "start_point # shelters"] by simp
  then have count: "(\<Sum>route\<leftarrow>route_data ?st'. int (length route) - 2) = int (length shelters)"
    by (simp add: o_def)
  have "route_distance ?st' = Some ?d" by simp
  with run time count show ?thesis by blast
qed

theorem total_time_is_travel_plus_service_witness:
  "\<exists>st' total_distance.
     solve_vrp (\<lambda>matrix v. Some one_stop) (0, 0) [(0, 1)] 1 initial_state = Some ([], st')
     \<and> route_distance st' = Some total_distance
     \<and> route_time st' = Some (py_round2 (total_distance / 0.667)
           + 60 * real_of_int (\<Sum>route\<leftarrow>route_data st'. int (length route) - 2))
     \<and> (\<Sum>route\<leftarrow>route_data st'. int (length route) - 2) = 1"
proof -
  have ne: "[(0::real, 1::real)] \<noteq> []" by simp
  have sol: "(\<lambda>matrix v. Some one_stop) (distance_matrix ((0, 0) # [(0, 1)])) (1::nat) = Some one_stop"
    by simp
  show ?thesis
    using total_time_is_travel_plus_service
      [where solve_with_parameters = "\<lambda>matrix v. Some one_stop" and st = initial_state
         and start_point = "(0, 0)", OF ne sol one_stop_valid]
    by simp
qed

section \<open>More vehicles than destinations\<close>

lemma filter_length_mono:
  "\<forall>x \<in> set xs. P x \<longrightarrow> Q x \<Longrightarrow> length (filter P xs) \<le> length (filter Q xs)"
  by (induction xs) auto

lemma nonempty_count_le_total:
  "length (filter (\<lambda>x. f x \<noteq> []) xs) \<le> length (concat (map f xs))"
proof (induction xs)
  case Nil
  then show ?case by simp
next
  case (Cons x xs)
  then show ?case by (cases "f x") simp_all
qed

lemma empty_interior_route:
  assumes v: "v < num_vehicles m" and d: "depot m < num_nodes m"
    and e: "interior (node_route m sol v) = []"
  shows "node_route m sol v = [depot m, depot m]"
proof -
  from vehicle_path_Cons [OF v d] obtain rest
    where rest: "vehicle_path m sol v = routing_Start m v # rest" by blast
  with e have "rest = []" by (simp add: interior_def node_route_def)
  with rest show ?thesis by (simp add: node_route_def IndexToNode_Start [OF d])
qed

lemma idle_vehicles_count:
  assumes valid: "valid_assignment m sol"
    and d0: "depot m = 0" and n: "1 < num_nodes m"
  shows "num_vehicles m - (num_nodes m - 1)
       \<le> length (filter (\<lambda>v. node_route m sol v = [0, 0]) [0..<num_vehicles m])"
proof -
  let ?vs = "[0..<num_vehicles m]"
  let ?f = "\<lambda>v. interior (node_route m sol v)"
  from n d0 have d: "depot m < num_nodes m" by simp
  have "length (concat (map ?f ?vs)) = size (mset (concat (map ?f ?vs)))" by simp
  also have "\<dots> = size (mset [1..<num_nodes m])"
    by (simp only: destinations_once [OF valid d0 n])
  finally have total: "length (concat (map ?f ?vs)) = num_nodes m - 1" by simp
  have "length (filter (\<lambda>v. ?f v \<noteq> []) ?vs) \<le> num_nodes m - 1"
    using nonempty_count_le_total [of ?f ?vs] total by simp
  moreover have "length (filter (\<lambda>v. ?f v = []) ?vs) + length (filter (\<lambda>v. ?f v \<noteq> []) ?vs)
      = num_vehicles m"
    using sum_length_filter_compl [of "\<lambda>v. ?f v = []" ?vs] by simp
  ultimately have "num_vehicles m - (num_nodes m - 1) \<le> length (filter (\<lambda>v. ?f v = []) ?vs)"
    by arith
  also have "\<dots> \<le> length (filter (\<lambda>v. node_route m sol v = [0, 0]) ?vs)"
    using empty_interior_route [OF _ d] d0 by (intro filter_length_mono) auto
  finally show ?thesis .
qed

lemma one_tour_valid: "valid_assignment (RoutingIndexManager 4 5 0) one_tour"
  by code_simp

text \<open>
  C5, as the code has it. With more vehicles than destinations the solve succeeds, there
  is one route per vehicle, and at least \<open>V - N\<close> of the routes are the depot twice.
  The number can be larger: nothing makes the solver use as many vehicles as it can.
\<close>

theorem idle_vehicles_at_least:
  assumes "shelters \<noteq> []"
    and "solve_with_parameters (distance_matrix (start_point # shelters)) n_vehicles = Some sol"
    and "valid_assignment (RoutingIndexManager (Suc (length shelters)) n_vehicles 0) sol"
  shows "\<exists>st'. solve_vrp solve_with_parameters start_point shelters n_vehicles st = Some ([], st')
       \<and> length (route_data st') = n_vehicles
       \<and> n_vehicles - length shelters
           \<le> length (filter (\<lambda>route. route = [start_point, start_point]) (route_data st'))"
proof -
  let ?m = "RoutingIndexManager (Suc (length shelters)) n_vehicles 0"
  let ?locs = "start_point # shelters"
  let ?data = "map (route_of ?m ?locs sol) [0..<n_vehicles]"
  let ?st' = "st\<lparr>route_data := ?data,
      route_distance := Some (real_of_int (ObjectiveValue sol) / 1000),
      route_time := Some (py_round2 (real_of_int (ObjectiveValue sol) / 1000 / 0.667)
         + real_of_int (\<Sum>v\<leftarrow>[0..<n_vehicles]. (int (length (route_of ?m ?locs sol v)) - 2) * 60))\<rparr>"
  have run: "solve_vrp solve_with_parameters start_point shelters n_vehicles st = Some ([], ?st')"
    by (rule solve_vrp_success [where solve_with_parameters = solve_with_parameters, OF assms])
  from assms(1) have n: "1 < num_nodes ?m" by (cases shelters) simp_all
  have "n_vehicles - length shelters
      \<le> length (filter (\<lambda>v. node_route ?m sol v = [0, 0]) [0..<n_vehicles])"
    using idle_vehicles_count [OF assms(3) _ n] by simp
  also have "\<dots> \<le> length (filter (\<lambda>v. route_of ?m ?locs sol v = [start_point, start_point])
      [0..<n_vehicles])"
    by (intro filter_length_mono) (simp add: route_of_def)
  also have "\<dots> = length (filter (\<lambda>route. route = [start_point, start_point]) ?data)"
    by (simp add: filter_map o_def)
  finally have idle: "n_vehicles - length shelters
      \<le> length (filter (\<lambda>route. route = [start_point, start_point]) (route_data ?st'))"
    by simp
  have len: "length (route_data ?st') = n_vehicles" by simp
  from run len idle show ?thesis by blast
qed

theorem idle_vehicles_at_least_witness:
  "\<exists>st'. solve_vrp (\<lambda>matrix v. Some one_tour) (0, 0) [(0, 1), (1, 1), (1, 0)] 5 initial_state
            = Some ([], st')
        \<and> length (route_data st') = 5
        \<and> 5 - length [(0::real, 1::real), (1, 1), (1, 0)]
            \<le> length (filter (\<lambda>route. route = [(0, 0), (0, 0)]) (route_data st'))"
proof -
  have ne: "[(0::real, 1::real), (1, 1), (1, 0)] \<noteq> []" by simp
  have sol: "(\<lambda>matrix v. Some one_tour) (distance_matrix ((0, 0) # [(0, 1), (1, 1), (1, 0)])) (5::nat)
      = Some one_tour" by simp
  have four: "Suc (length [(0::real, 1::real), (1, 1), (1, 0)]) = 4" by simp
  have valid: "valid_assignment
      (RoutingIndexManager (Suc (length [(0::real, 1::real), (1, 1), (1, 0)])) 5 0) one_tour"
    unfolding four by (rule one_tour_valid)
  from idle_vehicles_at_least
      [where solve_with_parameters = "\<lambda>matrix v. Some one_tour" and st = initial_state
         and start_point = "(0, 0)", OF ne sol valid]
  show ?thesis by blast
qed

lemma one_tour_node_routes:
  "map (node_route (RoutingIndexManager 4 5 0) one_tour) [0..<5]
     = [[0, 1, 2, 3, 0], [0, 0], [0, 0], [0, 0], [0, 0]]"
  by code_simp

lemma one_tour_routes:
  "map (route_of (RoutingIndexManager 4 5 0) [(0, 0), (0, 1), (1, 1), (1, 0)] one_tour) [0..<5]
     = [[(0, 0), (0, 1), (1, 1), (1, 0), (0, 0)],
        [(0, 0), (0, 0)], [(0, 0), (0, 0)], [(0, 0), (0, 0)], [(0, 0), (0, 0)]]"
proof -
  have "map (route_of (RoutingIndexManager 4 5 0) [(0, 0), (0, 1), (1, 1), (1, 0)] one_tour) [0..<5]
      = map (map (\<lambda>k. [(0, 0), (0, 1), (1, 1), (1, 0)] ! k))
          (map (node_route (RoutingIndexManager 4 5 0) one_tour) [0..<5])"
    by (simp add: route_of_def)
  then show ?thesis unfolding one_tour_node_routes by simp
qed

lemma unit_steps:
  "py_int (point_distance (0, 0) (0, 1) * 100000) = 100000"
  "py_int (point_distance (0, 1) (1, 1) * 100000) = 100000"
  "py_int (point_distance (1, 1) (1, 0) * 100000) = 100000"
  "py_int (point_distance (1, 0) (0, 0) * 100000) = 100000"
  by (simp_all add: point_distance_def py_int_def)

lemma one_tour_objective:
  "routing_objective (distance_matrix [(0, 0), (0, 1), (1, 1), (1, 0)])
     (RoutingIndexManager 4 5 0) one_tour = 401000"
proof -
  let ?m = "RoutingIndexManager 4 5 0"
  let ?dm = "distance_matrix [(0, 0), (0, 1), (1, 1), (1, 0)]"
  have used: "vehicle_used ?m one_tour 0" "\<not> vehicle_used ?m one_tour (Suc 0)"
    "\<not> vehicle_used ?m one_tour 2" "\<not> vehicle_used ?m one_tour 3" "\<not> vehicle_used ?m one_tour 4"
    by code_simp+
  have path: "vehicle_path ?m one_tour 0 = [0, Suc 0, 2, 3]" by code_simp
  have next_index: "Value one_tour 0 = Suc 0" "Value one_tour (Suc 0) = 2"
    "Value one_tour 2 = 3" "Value one_tour 3 = 8"
    by (simp_all add: one_tour_def)
  have "route_transit ?dm ?m one_tour 0 = 400000"
    unfolding route_transit_def path
    by (simp add: distance_callback_def IndexToNode_def next_index
        distance_matrix_entry unit_steps)
  moreover have vehicles: "[0..<5] = [0, Suc 0, 2, 3, 4]" by code_simp
  have "routing_objective ?dm ?m one_tour
      = (\<Sum>v\<leftarrow>[0, Suc 0, 2, 3, 4].
           if vehicle_used ?m one_tour v then 1000 + route_transit ?dm ?m one_tour v else 0)"
    by (simp only: routing_objective_def manager_fields vehicles)
  ultimately show ?thesis by (simp add: used)
qed

lemma one_each_valid: "valid_assignment (RoutingIndexManager 4 5 0) one_each"
  by code_simp

lemma diagonal_step: "py_int (point_distance (0, 0) (1, 1) * 100000) = 141421"
proof -
  have "(141421 / 100000)\<^sup>2 \<le> (2::real)" by (simp add: power2_eq_square)
  then have "141421 / 100000 \<le> sqrt 2" by (rule real_le_rsqrt)
  then have lo: "141421 \<le> sqrt 2 * 100000" by simp
  have "(2::real) < (141422 / 100000)\<^sup>2" by (simp add: power2_eq_square)
  then have "sqrt 2 < 141422 / 100000" by (intro real_less_lsqrt) simp_all
  then have hi: "sqrt 2 * 100000 < 141422" by simp
  from lo hi have "\<lfloor>sqrt 2 * 100000\<rfloor> = 141421" by (intro floor_unique) simp_all
  moreover have "point_distance (0, 0) (1, 1) = sqrt 2" by (simp add: point_distance_def)
  ultimately show ?thesis by (simp add: py_int_def)
qed

lemma one_each_objective:
  "routing_objective (distance_matrix [(0, 0), (0, 1), (1, 1), (1, 0)])
     (RoutingIndexManager 4 5 0) one_each = 685842"
proof -
  let ?m = "RoutingIndexManager 4 5 0"
  let ?dm = "distance_matrix [(0, 0), (0, 1), (1, 1), (1, 0)]"
  have used: "vehicle_used ?m one_each 0" "vehicle_used ?m one_each (Suc 0)"
    "vehicle_used ?m one_each 2" "\<not> vehicle_used ?m one_each 3" "\<not> vehicle_used ?m one_each 4"
    by code_simp+
  have path: "vehicle_path ?m one_each 0 = [0, Suc 0]" "vehicle_path ?m one_each (Suc 0) = [4, 2]"
    "vehicle_path ?m one_each 2 = [5, 3]"
    by code_simp+
  have next_index: "Value one_each 0 = Suc 0" "Value one_each (Suc 0) = 8"
    "Value one_each 4 = 2" "Value one_each 2 = 9" "Value one_each 5 = 3" "Value one_each 3 = 10"
    by (simp_all add: one_each_def)
  have homeward: "py_int (point_distance (0, 1) (0, 0) * 100000) = 100000"
    "py_int (point_distance (1, 1) (0, 0) * 100000) = 141421"
    "py_int (point_distance (0, 0) (1, 0) * 100000) = 100000"
    using unit_steps diagonal_step by (simp_all add: point_distance_sym)
  have "route_transit ?dm ?m one_each 0 = 200000"
    unfolding route_transit_def path
    by (simp add: distance_callback_def IndexToNode_def next_index
        distance_matrix_entry unit_steps homeward)
  moreover have "route_transit ?dm ?m one_each (Suc 0) = 282842"
    unfolding route_transit_def path
    by (simp add: distance_callback_def IndexToNode_def next_index
        distance_matrix_entry diagonal_step homeward)
  moreover have "route_transit ?dm ?m one_each 2 = 200000"
    unfolding route_transit_def path
    by (simp add: distance_callback_def IndexToNode_def next_index
        distance_matrix_entry unit_steps homeward)
  moreover have vehicles: "[0..<5] = [0, Suc 0, 2, 3, 4]" by code_simp
  have "routing_objective ?dm ?m one_each
      = (\<Sum>v\<leftarrow>[0, Suc 0, 2, 3, 4].
           if vehicle_used ?m one_each v then 1000 + route_transit ?dm ?m one_each v else 0)"
    by (simp only: routing_objective_def manager_fields vehicles)
  ultimately show ?thesis by (simp add: used)
qed

lemma five_vehicles_run:
  "solve_vrp (\<lambda>matrix v. Some one_tour) (0, 0) [(0, 1), (1, 1), (1, 0)] 5 initial_state
     = Some ([], \<lparr>route_data = [[(0, 0), (0, 1), (1, 1), (1, 0), (0, 0)],
                     [(0, 0), (0, 0)], [(0, 0), (0, 0)], [(0, 0), (0, 0)], [(0, 0), (0, 0)]],
                  route_distance = Some 401, route_time = Some 781.2\<rparr>)"
proof -
  have ne: "[(0::real, 1::real), (1, 1), (1, 0)] \<noteq> []" by simp
  have sol: "(\<lambda>matrix v. Some one_tour) (distance_matrix ((0, 0) # [(0, 1), (1, 1), (1, 0)])) (5::nat)
      = Some one_tour" by simp
  have four: "Suc (length [(0::real, 1::real), (1, 1), (1, 0)]) = 4" by simp
  have valid: "valid_assignment
      (RoutingIndexManager (Suc (length [(0::real, 1::real), (1, 1), (1, 0)])) 5 0) one_tour"
    unfolding four by (rule one_tour_valid)
  have vehicles: "[0..<5] = [0, Suc 0, 2, 3, 4]" by code_simp
  have routes: "map (route_of (RoutingIndexManager 4 5 0) [(0, 0), (0, 1), (1, 1), (1, 0)] one_tour)
        [0, Suc 0, 2, 3, 4]
      = [[(0, 0), (0, 1), (1, 1), (1, 0), (0, 0)],
         [(0, 0), (0, 0)], [(0, 0), (0, 0)], [(0, 0), (0, 0)], [(0, 0), (0, 0)]]"
    using one_tour_routes unfolding vehicles .
  have obj: "ObjectiveValue one_tour = 401000" by (simp add: one_tour_def)
  show ?thesis
    unfolding solve_vrp_success [where solve_with_parameters = "\<lambda>matrix v. Some one_tour",
        OF ne sol valid] four vehicles
    using routes
    by (simp add: obj initial_state_def py_round2_def round_half_even_def Let_def)
qed

text \<open>
  C5 as the specification states it asks for exactly \<open>V - N\<close> idle vehicles. With the
  destinations (0, 1), (1, 1), (1, 0) and 5 vehicles, one vehicle can visit all three: the
  assignment \<open>one_tour\<close> meets the library's constraints and its cost 401000 is what the
  library computes, below the cost 685842 of \<open>one_each\<close>, which sends three vehicles.
  The solve then leaves 4 routes that are the depot twice, not \<open>5 - 3 = 2\<close>.
\<close>

theorem idle_vehicles_exactly_counterexample:
  "valid_assignment (RoutingIndexManager 4 5 0) one_tour
   \<and> ObjectiveValue one_tour
       = routing_objective (distance_matrix [(0, 0), (0, 1), (1, 1), (1, 0)])
           (RoutingIndexManager 4 5 0) one_tour
   \<and> routing_objective (distance_matrix [(0, 0), (0, 1), (1, 1), (1, 0)])
           (RoutingIndexManager 4 5 0) one_tour
       < routing_objective (distance_matrix [(0, 0), (0, 1), (1, 1), (1, 0)])
           (RoutingIndexManager 4 5 0) one_each
   \<and> (\<exists>st'. solve_vrp (\<lambda>matrix v. Some one_tour) (0, 0) [(0, 1), (1, 1), (1, 0)] 5 initial_state
              = Some ([], st')
          \<and> length (filter (\<lambda>route. route = [(0, 0), (0, 0)]) (route_data st')) = 4
          \<and> length (filter (\<lambda>route. route = [(0, 0), (0, 0)]) (route_data st'))
              \<noteq> 5 - length [(0::real, 1::real), (1, 1), (1, 0)])"
proof -
  have "ObjectiveValue one_tour = 401000" by (simp add: one_tour_def)
  then show ?thesis
    by (simp add: one_tour_valid one_tour_objective one_each_objective five_vehicles_run)
qed

end
